theory Spec2Isabelle
  imports Main
begin

section \<open>Data model\<close>

text \<open>
  The enumerations of \<^verbatim>\<open>src/types/enums.ts\<close> and the \<^verbatim>\<open>Event\<close> interface of
  \<^verbatim>\<open>domain/entities/Event.ts\<close>.
\<close>

datatype EventStatus = PENDING | SENT | FAILED

datatype EventType = ACCIDENT | SERVICE | TRANSFER

text \<open>
  The values a timestamp field holds at run time. The interface declares \<^verbatim>\<open>Date\<close>;
  an event that went through \<^verbatim>\<open>JSON.stringify\<close> and \<^verbatim>\<open>JSON.parse\<close> carries the text
  that \<^verbatim>\<open>Date.prototype.toJSON\<close> produced instead: \<open>IsoString t\<close> stands for the
  ISO-8601 string \<^verbatim>\<open>toISOString()\<close> renders for the time value \<open>t\<close> (milliseconds
  since the epoch), and \<open>JsonNull\<close> for the \<^verbatim>\<open>null\<close> an invalid date is written as.
\<close>

datatype timestamp = DateObj int | InvalidDate | IsoString int | JsonNull

text \<open>
  Optional properties (\<^verbatim>\<open>photoUri?\<close>, \<^verbatim>\<open>lastSyncError?\<close>, \<^verbatim>\<open>serverId?\<close>) are options,
  \<open>None\<close> being \<^verbatim>\<open>undefined\<close>. \<^verbatim>\<open>syncAttempts\<close> is the non-negative counter of the
  data model. The fields \<^verbatim>\<open>id\<close> and \<^verbatim>\<open>type\<close> carry a suffix.
\<close>

record Event =
  id_event :: string
  objectId :: string
  type_event :: EventType
  comment :: string
  occurredAt :: timestamp
  photoUri :: "string option"
  status :: EventStatus
  syncAttempts :: nat
  lastSyncError :: "string option"
  createdAt :: timestamp
  updatedAt :: timestamp
  serverId :: "string option"

section \<open>The JavaScript runtime: thrown values, JSON, console\<close>

text \<open>A thrown value, with its \<^verbatim>\<open>message\<close> property when it has one.\<close>

datatype error = Error "string option"

text \<open>\<^verbatim>\<open>error?.message || fallback\<close>: an absent or empty message gives the fallback.\<close>

fun message_or :: "error \<Rightarrow> string \<Rightarrow> string" where
  "message_or (Error None) fallback = fallback"
| "message_or (Error (Some m)) fallback = (if m = [] then fallback else m)"

text \<open>\<^verbatim>\<open>Date.prototype.toJSON\<close> on a timestamp field; a string or null is written as it is.\<close>

fun toJSON_time :: "timestamp \<Rightarrow> timestamp" where
  "toJSON_time (DateObj t) = IsoString t"
| "toJSON_time InvalidDate = JsonNull"
| "toJSON_time (IsoString t) = IsoString t"
| "toJSON_time JsonNull = JsonNull"

text \<open>
  What \<^verbatim>\<open>JSON.parse(JSON.stringify(e))\<close> is for one event: strings, the counter and the
  enumeration members come back as they were, an \<^verbatim>\<open>undefined\<close> property is left out
  and so is \<^verbatim>\<open>undefined\<close> again, and the three timestamps come back in their JSON form.
\<close>

definition toJSON :: "Event \<Rightarrow> Event" where
  "toJSON e = e\<lparr>occurredAt := toJSON_time (occurredAt e),
                createdAt := toJSON_time (createdAt e),
                updatedAt := toJSON_time (updatedAt e)\<rparr>"

text \<open>
  A stored string value. \<open>Stringified es\<close> is the text \<^verbatim>\<open>JSON.stringify(es)\<close> of an
  array of events; \<open>Malformed\<close> is a text that \<^verbatim>\<open>JSON.parse\<close> rejects and \<open>EmptyText\<close>
  the empty string. The stored text is taken to have the declared type of the
  collection: a JSON text of anything but an event array is outside the model.
\<close>

datatype stored_text = Stringified "Event list" | Malformed | EmptyText

definition JSON_stringify :: "Event list \<Rightarrow> stored_text" where
  "JSON_stringify events = Stringified events"

text \<open>\<^verbatim>\<open>JSON.parse\<close>: \<open>Inl\<close> is the SyntaxError it throws.\<close>

fun JSON_parse :: "stored_text \<Rightarrow> error + Event list" where
  "JSON_parse (Stringified es) = Inr (map toJSON es)"
| "JSON_parse Malformed = Inl (Error (Some ''Unexpected token''))"
| "JSON_parse EmptyText = Inl (Error (Some ''Unexpected end of JSON input''))"

text \<open>One call of \<^verbatim>\<open>console.log\<close>, \<^verbatim>\<open>console.warn\<close> or \<^verbatim>\<open>console.error\<close>.\<close>

datatype console_entry =
  Log string
| Warn string
| WarnWith string error
| ErrorWith string error

section \<open>The key-value store and the connectivity oracle\<close>

text \<open>
  The state the repository works on: the key-value store behind \<^verbatim>\<open>IDatabase\<close>, the
  outcomes of its next calls and the console. The \<^verbatim>\<open>Database\<close> class hands every call
  to AsyncStorage and lets its rejection through, so a call may reject: \<open>rejections\<close>
  scripts the next calls, \<open>None\<close> for a call that completes and \<open>Some err\<close> for one
  that rejects with \<open>err\<close> and changes nothing; past the end of the script every call
  completes.

  Every operation of the repository first awaits \<^verbatim>\<open>networkInfo.isConnected()\<close>, outside any
  \<^verbatim>\<open>try\<close>. \<^verbatim>\<open>NetworkInfo.isConnected\<close> awaits \<^verbatim>\<open>NetInfo.fetch()\<close> with no handler of its
  own, so the awaited promise either rejects or gives a boolean: the operations take that
  outcome, \<open>Inl err\<close> for a rejection with \<open>err\<close> and \<open>Inr b\<close> for the boolean \<open>b\<close>.
\<close>

record World =
  store :: "string \<rightharpoonup> stored_text"
  rejections :: "error option list"
  console :: "console_entry list"

definition next_call :: "World \<Rightarrow> error option \<times> World" where
  "next_call w = (case rejections w of
       [] \<Rightarrow> (None, w)
     | outcome # rest \<Rightarrow> (outcome, w\<lparr>rejections := rest\<rparr>))"

definition setItem :: "string \<Rightarrow> stored_text \<Rightarrow> World \<Rightarrow> (error + unit) \<times> World" where
  "setItem key val w = (case next_call w of
       (Some err, w') \<Rightarrow> (Inl err, w')
     | (None, w') \<Rightarrow> (Inr (), w'\<lparr>store := (store w')(key \<mapsto> val)\<rparr>))"

definition getItem :: "string \<Rightarrow> World \<Rightarrow> (error + stored_text option) \<times> World" where
  "getItem key w = (case next_call w of
       (Some err, w') \<Rightarrow> (Inl err, w')
     | (None, w') \<Rightarrow> (Inr (store w' key), w'))"

definition removeItem :: "string \<Rightarrow> World \<Rightarrow> (error + unit) \<times> World" where
  "removeItem key w = (case next_call w of
       (Some err, w') \<Rightarrow> (Inl err, w')
     | (None, w') \<Rightarrow> (Inr (), w'\<lparr>store := (store w')(key := None)\<rparr>))"

definition console_add :: "console_entry \<Rightarrow> World \<Rightarrow> World" where
  "console_add entry w = w\<lparr>console := console w @ [entry]\<rparr>"

section \<open>EventLocalDataSource\<close>

definition EVENTS_KEY :: string where
  "EVENTS_KEY = ''events''"

definition saveEvents :: "Event list \<Rightarrow> World \<Rightarrow> (error + unit) \<times> World" where
  "saveEvents events w = setItem EVENTS_KEY (JSON_stringify events) w"

text \<open>
  \<^verbatim>\<open>if (!data) return []\<close> covers \<^verbatim>\<open>null\<close> and the empty string; the \<^verbatim>\<open>catch\<close> turns a
  text that does not parse into the empty list.
\<close>

definition getEvents :: "World \<Rightarrow> (error + Event list) \<times> World" where
  "getEvents w = (case getItem EVENTS_KEY w of
       (Inl err, w') \<Rightarrow> (Inl err, w')
     | (Inr None, w') \<Rightarrow> (Inr [], w')
     | (Inr (Some EmptyText), w') \<Rightarrow> (Inr [], w')
     | (Inr (Some data), w') \<Rightarrow>
         (case JSON_parse data of
            Inr events \<Rightarrow> (Inr events, w')
          | Inl _ \<Rightarrow> (Inr [], w')))"

text \<open>\<^verbatim>\<open>Array.prototype.findIndex\<close>; \<open>None\<close> is its \<^verbatim>\<open>-1\<close>.\<close>

fun findIndex :: "('a \<Rightarrow> bool) \<Rightarrow> 'a list \<Rightarrow> nat option" where
  "findIndex p [] = None"
| "findIndex p (x # xs) = (if p x then Some 0 else map_option Suc (findIndex p xs))"

definition saveEvent :: "Event \<Rightarrow> World \<Rightarrow> (error + unit) \<times> World" where
  "saveEvent event w = (case getEvents w of
       (Inl err, w') \<Rightarrow> (Inl err, w')
     | (Inr events, w') \<Rightarrow>
         (case findIndex (\<lambda>e. id_event e = id_event event) events of
            Some index \<Rightarrow> saveEvents (events[index := event]) w'
          | None \<Rightarrow> saveEvents (events @ [event]) w'))"

definition getEventById_local :: "string \<Rightarrow> World \<Rightarrow> (error + Event option) \<times> World" where
  "getEventById_local i w = (case getEvents w of
       (Inl err, w') \<Rightarrow> (Inl err, w')
     | (Inr events, w') \<Rightarrow> (Inr (find (\<lambda>e. id_event e = i) events), w'))"

definition deleteEvent_local :: "string \<Rightarrow> World \<Rightarrow> (error + unit) \<times> World" where
  "deleteEvent_local i w = (case getEvents w of
       (Inl err, w') \<Rightarrow> (Inl err, w')
     | (Inr events, w') \<Rightarrow> saveEvents (filter (\<lambda>e. id_event e \<noteq> i) events) w')"

definition clearEvents :: "World \<Rightarrow> (error + unit) \<times> World" where
  "clearEvents w = removeItem EVENTS_KEY w"

section \<open>EventRepositoryImpl\<close>

definition MAX_RETRY_ATTEMPTS :: nat where
  "MAX_RETRY_ATTEMPTS = 3"

definition getAllEvents :: "World \<Rightarrow> (error + Event list) \<times> World" where
  "getAllEvents w = getEvents w"

definition getEventById :: "string \<Rightarrow> World \<Rightarrow> (error + Event option) \<times> World" where
  "getEventById i w = getEventById_local i w"

text \<open>
  \<^verbatim>\<open>createEvent\<close> and \<^verbatim>\<open>updateEvent\<close> assign to the properties of the object they are
  given. The result is the returned event (or the thrown value), then the caller's
  object as the call leaves it, then the new state. A rejection of the connectivity check
  is thrown on before anything else is done.
\<close>

definition createEvent :: "error + bool \<Rightarrow> Event \<Rightarrow> World \<Rightarrow> (error + Event) \<times> Event \<times> World" where
  "createEvent connectivity event w =
     (case connectivity of Inl rejection \<Rightarrow> (Inl rejection, event, w) | Inr isConnected \<Rightarrow>
      if isConnected then
        (let localeEvent = event\<lparr>status := SENT, syncAttempts := 0\<rparr> in
         case saveEvent localeEvent w of
           (Inr _, w') \<Rightarrow> (Inr localeEvent, event, w')
         | (Inl err, w') \<Rightarrow>
             (let event' = event\<lparr>status := FAILED, syncAttempts := 1,
                                 lastSyncError := Some (message_or err ''Failed to sync'')\<rparr> in
              case saveEvent event' w' of
                (Inr _, w'') \<Rightarrow> (Inr event', event', w'')
              | (Inl err', w'') \<Rightarrow> (Inl err', event', w'')))
      else
        (let event' = event\<lparr>status := PENDING, syncAttempts := 0\<rparr> in
         case saveEvent event' w of
           (Inr _, w') \<Rightarrow> (Inr event', event', w')
         | (Inl err, w') \<Rightarrow> (Inl err, event', w')))"

definition updateEvent :: "error + bool \<Rightarrow> Event \<Rightarrow> World \<Rightarrow> (error + Event) \<times> Event \<times> World" where
  "updateEvent connectivity event w =
     (case connectivity of Inl rejection \<Rightarrow> (Inl rejection, event, w) | Inr isConnected \<Rightarrow>
      if isConnected then
        (let localeEvent = event\<lparr>status := SENT, syncAttempts := 0\<rparr>;
             event1 = event\<lparr>lastSyncError := Some ''''\<rparr> in
         case saveEvent localeEvent w of
           (Inr _, w') \<Rightarrow> (Inr localeEvent, event1, w')
         | (Inl err, w') \<Rightarrow>
             (let w1 = console_add (ErrorWith ''Failed to update event:'' err) w';
                  event' = event1\<lparr>status := FAILED,
                                  syncAttempts := min (syncAttempts event1 + 1) MAX_RETRY_ATTEMPTS,
                                  lastSyncError := Some (message_or err ''Failed to sync'')\<rparr> in
              case saveEvent event' w1 of
                (Inr _, w'') \<Rightarrow> (Inr event', event', w'')
              | (Inl err', w'') \<Rightarrow> (Inl err', event', w'')))
      else
        (let event' = event\<lparr>status := PENDING\<rparr> in
         case saveEvent event' w of
           (Inr _, w') \<Rightarrow> (Inr event', event', w')
         | (Inl err, w') \<Rightarrow> (Inl err, event', w')))"

definition deleteEvent :: "error + bool \<Rightarrow> string \<Rightarrow> World \<Rightarrow> (error + unit) \<times> World" where
  "deleteEvent connectivity i w =
     (case connectivity of Inl rejection \<Rightarrow> (Inl rejection, w) | Inr isConnected \<Rightarrow>
      if isConnected then
        (case deleteEvent_local i w of
           (Inr _, w') \<Rightarrow> (Inr (), w')
         | (Inl err, w') \<Rightarrow>
             (Inr (), console_add (WarnWith ''Failed to delete event from server:'' err) w'))
      else (Inr (), w))"

text \<open>
  The body of the \<^verbatim>\<open>for\<close> loop of \<^verbatim>\<open>syncEvents\<close> for one event: the skip, the attempt
  in the inner \<^verbatim>\<open>try\<close>, and the \<^verbatim>\<open>catch\<close>, whose own \<^verbatim>\<open>saveEvent\<close> stands outside any
  inner handler, so what it throws leaves the loop.
\<close>

definition syncOne :: "Event \<Rightarrow> World \<Rightarrow> (error + unit) \<times> World" where
  "syncOne event w =
     (if syncAttempts event \<ge> MAX_RETRY_ATTEMPTS then
        (Inr (), console_add (Warn (''Event '' @ id_event event @ '' exceeded max retry attempts'')) w)
      else
        (let syncedEvent = event\<lparr>status := SENT, syncAttempts := 0\<rparr> in
         case saveEvent syncedEvent w of
           (Inr _, w') \<Rightarrow>
             (Inr (), console_add (Log (''Event '' @ id_event event @ '' synced successfully'')) w')
         | (Inl err, w') \<Rightarrow>
             (let attempts = syncAttempts event + 1;
                  event' = event\<lparr>syncAttempts := attempts,
                                 lastSyncError := Some (message_or err ''Sync failed''),
                                 status := (if attempts \<ge> MAX_RETRY_ATTEMPTS then FAILED else PENDING)\<rparr> in
              case saveEvent event' w' of
                (Inr _, w'') \<Rightarrow>
                  (Inr (), console_add (WarnWith (''Failed to sync event '' @ id_event event @ '':'') err) w'')
              | (Inl err', w'') \<Rightarrow> (Inl err', w''))))"

fun syncLoop :: "Event list \<Rightarrow> World \<Rightarrow> (error + unit) \<times> World" where
  "syncLoop [] w = (Inr (), w)"
| "syncLoop (event # rest) w = (case syncOne event w of
       (Inr _, w') \<Rightarrow> syncLoop rest w'
     | (Inl err, w') \<Rightarrow> (Inl err, w'))"

definition syncEvents :: "error + bool \<Rightarrow> World \<Rightarrow> (error + unit) \<times> World" where
  "syncEvents connectivity w =
     (case connectivity of Inl rejection \<Rightarrow> (Inl rejection, w) | Inr isConnected \<Rightarrow>
      if \<not> isConnected then
        (Inr (), console_add (Log ''No network connection. Sync will retry when online.'') w)
      else
        (case getEvents w of
           (Inl err, w') \<Rightarrow> (Inr (), console_add (ErrorWith ''Sync process failed:'' err) w')
         | (Inr localEvents, w') \<Rightarrow>
             (let pendingOrFailedEvents =
                    filter (\<lambda>e. status e = PENDING \<or> status e = FAILED) localEvents in
              case syncLoop pendingOrFailedEvents w' of
                (Inr _, w'') \<Rightarrow> (Inr (), w'')
              | (Inl err, w'') \<Rightarrow>
                  (Inr (), console_add (ErrorWith ''Sync process failed:'' err) w''))))"

section \<open>Reading the stored collection\<close>

text \<open>
  What a read finds when the store answers: the script of rejections is emptied first, so
  the read itself completes.
\<close>

definition answering :: "World \<Rightarrow> World" where
  "answering w = w\<lparr>rejections := []\<rparr>"

definition stored_events :: "World \<Rightarrow> Event list" where
  "stored_events w = (case fst (getEvents (answering w)) of Inr events \<Rightarrow> events | Inl _ \<Rightarrow> [])"

definition stored_event :: "string \<Rightarrow> World \<Rightarrow> Event option" where
  "stored_event i w = (case fst (getEventById i (answering w)) of Inr r \<Rightarrow> r | Inl _ \<Rightarrow> None)"

text \<open>The list \<^verbatim>\<open>getEvents\<close> makes of what is under the key.\<close>

fun collection_of :: "stored_text option \<Rightarrow> Event list" where
  "collection_of (Some (Stringified es)) = map toJSON es"
| "collection_of _ = []"

text \<open>The list \<^verbatim>\<open>saveEvent\<close> writes back: the event replaces the first one of its id, or is appended.\<close>

definition upsert :: "Event \<Rightarrow> Event list \<Rightarrow> Event list" where
  "upsert event events =
     (case findIndex (\<lambda>e. id_event e = id_event event) events of
        Some index \<Rightarrow> events[index := event]
      | None \<Rightarrow> events @ [event])"

text \<open>
  The two events a reconciliation attempt may persist: the copy marked as sent, and the
  record of a failure with the thrown value \<open>err\<close>.
\<close>

definition synced :: "Event \<Rightarrow> Event" where
  "synced e = e\<lparr>status := SENT, syncAttempts := 0\<rparr>"

definition failed :: "error \<Rightarrow> Event \<Rightarrow> Event" where
  "failed err e = e\<lparr>syncAttempts := syncAttempts e + 1,
                      lastSyncError := Some (message_or err ''Sync failed''),
                      status := (if syncAttempts e + 1 \<ge> MAX_RETRY_ATTEMPTS then FAILED else PENDING)\<rparr>"

text \<open>The console lines of an attempt that succeeded and of one that failed and was recorded.\<close>

definition synced_line :: "string \<Rightarrow> console_entry" where
  "synced_line i = Log (''Event '' @ i @ '' synced successfully'')"

definition failed_line :: "string \<Rightarrow> error \<Rightarrow> console_entry" where
  "failed_line i err = WarnWith (''Failed to sync event '' @ i @ '':'') err"

text \<open>The identifiers of the stored events are pairwise different (the data model's invariant).\<close>

definition unique_ids :: "World \<Rightarrow> bool" where
  "unique_ids w = distinct (map id_event (stored_events w))"

text \<open>No stored event has more than \<open>MAX_RETRY_ATTEMPTS\<close> attempts.\<close>

definition attempts_bounded :: "World \<Rightarrow> bool" where
  "attempts_bounded w = list_all (\<lambda>e. syncAttempts e \<le> MAX_RETRY_ATTEMPTS) (stored_events w)"

text \<open>The next \<open>n\<close> calls to the key-value store complete.\<close>

definition completes :: "nat \<Rightarrow> World \<Rightarrow> bool" where
  "completes n w = list_all (\<lambda>r. r = None) (take n (rejections w))"

section \<open>Sample events and states\<close>

text \<open>
  An event of object \<^verbatim>\<open>obj_001\<close> with the given id, status, attempt count, last error
  and one value for its three timestamps, and a state whose store holds the text of the
  given events, with the given script of rejections and an empty console. Then the
  events and states the theorems are evaluated at.
\<close>

definition sample :: "string \<Rightarrow> EventStatus \<Rightarrow> nat \<Rightarrow> string option \<Rightarrow> timestamp \<Rightarrow> Event" where
  "sample i st n err t = \<lparr>id_event = i, objectId = ''obj_001'', type_event = ACCIDENT,
     comment = ''dent'', occurredAt = t, photoUri = None, status = st, syncAttempts = n,
     lastSyncError = err, createdAt = t, updatedAt = t, serverId = None\<rparr>"

definition world_of :: "Event list \<Rightarrow> error option list \<Rightarrow> World" where
  "world_of es rs = \<lparr>store = [EVENTS_KEY \<mapsto> Stringified es], rejections = rs, console = []\<rparr>"

definition failed_once :: Event where
  "failed_once = sample ''e1'' FAILED 1 (Some ''Sync failed'') (IsoString 0)"

definition failed_once_world :: World where
  "failed_once_world = world_of [failed_once] []"

definition two_attempts :: Event where
  "two_attempts = sample ''e1'' PENDING 2 None (IsoString 0)"

definition disk_full_world :: World where
  "disk_full_world = world_of [two_attempts] [None, Some (Error (Some ''disk full''))]"

definition lost_failure_world :: World where
  "lost_failure_world =
     world_of [two_attempts] [None, Some (Error (Some ''disk full'')), Some (Error (Some ''disk full''))]"

definition pending_event :: Event where
  "pending_event = sample ''e1'' PENDING 0 None (IsoString 7)"

definition pending_world :: World where
  "pending_world = world_of [pending_event] []"

definition dated_event :: Event where
  "dated_event = sample ''e1'' PENDING 0 None (DateObj 5)"

definition incoming_event :: Event where
  "incoming_event = sample ''e1'' SENT 7 None (DateObj 5)"

definition two_pending :: "Event list" where
  "two_pending = [sample ''e1'' PENDING 0 None (IsoString 0), sample ''e2'' PENDING 0 None (IsoString 0)]"

lemmas run_defs = syncEvents_def getEvents_def getItem_def setItem_def next_call_def
  syncOne_def saveEvent_def saveEvents_def JSON_stringify_def toJSON_def console_add_def
  EVENTS_KEY_def MAX_RETRY_ATTEMPTS_def stored_event_def stored_events_def getEventById_def
  getEventById_local_def answering_def world_of_def sample_def synced_line_def failed_line_def
  unique_ids_def attempts_bounded_def completes_def createEvent_def updateEvent_def deleteEvent_def
  deleteEvent_local_def Let_def failed_once_def failed_once_world_def two_attempts_def
  disk_full_world_def lost_failure_world_def pending_event_def pending_world_def dated_event_def incoming_event_def two_pending_def

section \<open>Reads depend on the store alone\<close>

lemma getEvents_answering:
  "getEvents (answering w) = (Inr (collection_of (store w EVENTS_KEY)), answering w)"
  by (cases "store w EVENTS_KEY" rule: collection_of.cases)
     (simp_all add: getEvents_def getItem_def next_call_def answering_def)

lemma stored_events_eq: "stored_events w = collection_of (store w EVENTS_KEY)"
  by (simp add: stored_events_def getEvents_answering)

lemma stored_event_eq: "stored_event i w = find (\<lambda>e. id_event e = i) (stored_events w)"
  by (simp add: stored_event_def getEventById_def getEventById_local_def
      getEvents_answering stored_events_eq)

section \<open>The JSON form of an event\<close>

lemma toJSON_time_idem [simp]: "toJSON_time (toJSON_time t) = toJSON_time t"
  by (cases t) simp_all

lemma toJSON_idem [simp]: "toJSON (toJSON e) = toJSON e"
  by (simp add: toJSON_def)

lemma toJSON_fields [simp]:
  "id_event (toJSON e) = id_event e" "status (toJSON e) = status e"
  "syncAttempts (toJSON e) = syncAttempts e" "lastSyncError (toJSON e) = lastSyncError e"
  "objectId (toJSON e) = objectId e" "type_event (toJSON e) = type_event e"
  "comment (toJSON e) = comment e" "photoUri (toJSON e) = photoUri e"
  "serverId (toJSON e) = serverId e"
  "occurredAt (toJSON e) = toJSON_time (occurredAt e)"
  "createdAt (toJSON e) = toJSON_time (createdAt e)"
  "updatedAt (toJSON e) = toJSON_time (updatedAt e)"
  by (simp_all add: toJSON_def)

lemma collection_of_normal: "map toJSON (collection_of t) = collection_of t"
  by (cases t rule: collection_of.cases) simp_all

lemma stored_events_normal: "e \<in> set (stored_events w) \<Longrightarrow> toJSON e = e"
proof -
  assume "e \<in> set (stored_events w)"
  then have "e \<in> set (map toJSON (stored_events w))"
    by (simp only: stored_events_eq collection_of_normal)
  then show ?thesis by auto
qed

lemma next_call_frame [simp]:
  "store (snd (next_call w)) = store w" "console (snd (next_call w)) = console w"
  by (simp_all add: next_call_def split: list.splits)

lemma getEvents_eq:
  "getEvents w = (case fst (next_call w) of
       Some err \<Rightarrow> (Inl err, snd (next_call w))
     | None \<Rightarrow> (Inr (stored_events w), snd (next_call w)))"
proof (cases "next_call w")
  case (Pair out w1)
  then have st: "store w1 = store w" using next_call_frame(1)[of w] by simp
  show ?thesis
    by (cases "store w EVENTS_KEY" rule: collection_of.cases)
       (simp_all add: getEvents_def getItem_def stored_events_eq Pair st split: option.splits)
qed

lemma saveEvents_eq:
  "saveEvents es w = (case fst (next_call w) of
       Some err \<Rightarrow> (Inl err, snd (next_call w))
     | None \<Rightarrow> (Inr (), (snd (next_call w))\<lparr>store := (store w)(EVENTS_KEY \<mapsto> Stringified es)\<rparr>))"
proof (cases "next_call w")
  case (Pair out w1)
  then have st: "store w1 = store w" using next_call_frame(1)[of w] by simp
  show ?thesis
    by (simp add: saveEvents_def setItem_def JSON_stringify_def Pair st split: option.splits)
qed

lemma saveEvent_eq:
  "saveEvent ev w = (case getEvents w of
       (Inl err, w') \<Rightarrow> (Inl err, w')
     | (Inr events, w') \<Rightarrow> saveEvents (upsert ev events) w')"
  by (simp add: saveEvent_def upsert_def split: prod.splits sum.splits option.splits)

lemma upsert_Nil [simp]: "upsert ev [] = [ev]"
  by (simp add: upsert_def)

lemma upsert_Cons:
  "upsert ev (x # xs) = (if id_event x = id_event ev then ev # xs else x # upsert ev xs)"
  by (simp add: upsert_def split: option.splits)

lemma upsert_map_toJSON: "map toJSON (upsert ev xs) = upsert (toJSON ev) (map toJSON xs)"
  by (induction xs) (simp_all add: upsert_Cons)

lemma find_upsert:
  "find (\<lambda>e. id_event e = i) (upsert ev xs) =
     (if i = id_event ev then Some ev else find (\<lambda>e. id_event e = i) xs)"
  by (induction xs) (auto simp: upsert_Cons)

lemma ids_upsert:
  "set (map id_event (upsert ev xs)) = insert (id_event ev) (set (map id_event xs))"
  by (induction xs) (auto simp: upsert_Cons)

lemma distinct_upsert:
  "distinct (map id_event xs) \<Longrightarrow> distinct (map id_event (upsert ev xs))"
proof (induction xs)
  case Nil then show ?case by simp
next
  case (Cons x xs)
  have "id_event x \<noteq> id_event ev \<Longrightarrow> id_event x \<notin> set (map id_event (upsert ev xs))"
    using Cons.prems by (simp only: ids_upsert) auto
  with Cons show ?case by (auto simp: upsert_Cons)
qed

lemma list_all_upsert:
  "list_all P xs \<Longrightarrow> P ev \<Longrightarrow> list_all P (upsert ev xs)"
  by (induction xs) (auto simp: upsert_Cons)

section \<open>What one save does to the stored collection\<close>

lemma saveEvent_Inl:
  assumes "saveEvent ev w = (Inl err, w')"
  shows "store w' = store w" and "console w' = console w"
  using assms
  by (auto simp: saveEvent_eq getEvents_eq saveEvents_eq split: option.splits)

lemma saveEvent_Inr:
  assumes "saveEvent ev w = (Inr u, w')"
  shows "store w' = (store w)(EVENTS_KEY \<mapsto> Stringified (upsert ev (stored_events w)))"
    and "console w' = console w"
  using assms
  by (auto simp: saveEvent_eq getEvents_eq saveEvents_eq split: option.splits)

lemma stored_events_normal_map: "map toJSON (stored_events w) = stored_events w"
  by (simp add: stored_events_eq collection_of_normal)

lemma saveEvent_failed_stored:
  "saveEvent ev w = (Inl err, w') \<Longrightarrow> stored_events w' = stored_events w"
  by (simp add: stored_events_eq saveEvent_Inl(1))

lemma saveEvent_ok_stored:
  "saveEvent ev w = (Inr u, w') \<Longrightarrow> stored_events w' = upsert (toJSON ev) (stored_events w)"
  by (simp add: stored_events_eq[of w'] saveEvent_Inr(1) upsert_map_toJSON stored_events_normal_map)

lemma syncOne_cases:
  assumes "syncOne e w = (r, w')"
  obtains
    (skip) "MAX_RETRY_ATTEMPTS \<le> syncAttempts e" "r = Inr ()" "stored_events w' = stored_events w"
      "console w' = console w @ [Warn (''Event '' @ id_event e @ '' exceeded max retry attempts'')]"
  | (sent) "syncAttempts e < MAX_RETRY_ATTEMPTS" "r = Inr ()"
      "stored_events w' = upsert (toJSON (synced e)) (stored_events w)"
      "console w' = console w @ [synced_line (id_event e)]"
  | (recorded) err where "syncAttempts e < MAX_RETRY_ATTEMPTS" "r = Inr ()"
      "stored_events w' = upsert (toJSON (failed err e)) (stored_events w)"
      "console w' = console w @ [failed_line (id_event e) err]"
  | (thrown) err where "syncAttempts e < MAX_RETRY_ATTEMPTS" "r = Inl err"
      "stored_events w' = stored_events w" "console w' = console w"
proof (cases "MAX_RETRY_ATTEMPTS \<le> syncAttempts e")
  case True
  with assms show ?thesis
    by (intro skip) (auto simp: syncOne_def console_add_def stored_events_eq)
next
  case False
  then have lt: "syncAttempts e < MAX_RETRY_ATTEMPTS" by simp
  obtain r1 w1 where s1: "saveEvent (synced e) w = (r1, w1)" by (cases "saveEvent (synced e) w")
  show ?thesis
  proof (cases r1)
    case (Inr u)
    with assms s1 False have "r = Inr ()" "w' = console_add (synced_line (id_event e)) w1"
      by (auto simp: syncOne_def synced_def synced_line_def)
    moreover from s1 Inr have "stored_events w1 = upsert (toJSON (synced e)) (stored_events w)"
      "console w1 = console w"
      by (auto simp: saveEvent_ok_stored saveEvent_Inr(2))
    ultimately show ?thesis using lt
      by (intro sent) (auto simp: console_add_def stored_events_eq)
  next
    case (Inl err)
    with s1 have f1: "stored_events w1 = stored_events w" "console w1 = console w"
      by (auto simp: saveEvent_failed_stored saveEvent_Inl(2))
    obtain r2 w2 where s2: "saveEvent (failed err e) w1 = (r2, w2)"
      by (cases "saveEvent (failed err e) w1")
    show ?thesis
    proof (cases r2)
      case (Inr u)
      with assms s1 s2 Inl False have "r = Inr ()" "w' = console_add (failed_line (id_event e) err) w2"
        by (auto simp: syncOne_def synced_def failed_def failed_line_def Let_def)
      moreover from s2 Inr f1 have "stored_events w2 = upsert (toJSON (failed err e)) (stored_events w)"
        "console w2 = console w"
        by (auto simp: saveEvent_ok_stored saveEvent_Inr(2))
      ultimately show ?thesis using lt
        by (intro recorded) (auto simp: console_add_def stored_events_eq)
    next
      case (Inl err2)
      with assms s1 s2 \<open>r1 = Inl err\<close> False have "r = Inl err2" "w' = w2"
        by (auto simp: syncOne_def synced_def failed_def Let_def)
      moreover from s2 Inl f1 have "stored_events w2 = stored_events w" "console w2 = console w"
        by (auto simp: saveEvent_failed_stored saveEvent_Inl(2))
      ultimately show ?thesis using lt by (intro thrown) auto
    qed
  qed
qed

section \<open>Facts about the two persisted events\<close>

lemma synced_id [simp]: "id_event (synced e) = id_event e"
  by (simp add: synced_def)

lemma failed_id [simp]: "id_event (failed err e) = id_event e"
  by (simp add: failed_def)

lemma find_distinct_ids:
  "distinct (map id_event xs) \<Longrightarrow> e \<in> set xs \<Longrightarrow> find (\<lambda>x. id_event x = id_event e) xs = Some e"
proof (induction xs)
  case Nil then show ?case by simp
next
  case (Cons x xs)
  show ?case
  proof (cases "x = e")
    case True then show ?thesis by simp
  next
    case False
    with Cons.prems have "e \<in> set xs" by simp
    then have "id_event e \<in> id_event ` set xs" by (rule imageI)
    with Cons.prems(1) have "id_event x \<noteq> id_event e" by auto
    with Cons \<open>e \<in> set xs\<close> show ?thesis by simp
  qed
qed

section \<open>The loop and the pass\<close>

lemma syncLoop_Cons_cases:
  assumes "syncLoop (f # F) w = (r, w')"
  obtains (stop) err where "syncOne f w = (Inl err, w')" "r = Inl err"
  | (continue) w1 where "syncOne f w = (Inr (), w1)" "syncLoop F w1 = (r, w')"
  using assms by (cases "syncOne f w") (auto split: sum.splits)

lemma next_call_stored [simp]: "stored_events (snd (next_call w)) = stored_events w"
  by (simp add: stored_events_eq)

lemma console_add_frame [simp]:
  "stored_events (console_add x w) = stored_events w"
  "console (console_add x w) = console w @ [x]"
  by (simp_all add: stored_events_eq console_add_def)

lemma connectivity_cases:
  obtains (rejected) err where "net = Inl err" | (connected) "net = Inr True"
  | (disconnected) "net = Inr False"
  by (cases net) auto

lemma rejected_connectivity:
  "syncEvents (Inl err) w = (Inl err, w)" "deleteEvent (Inl err) i w = (Inl err, w)"
  "createEvent (Inl err) ev w = (Inl err, ev, w)" "updateEvent (Inl err) ev w = (Inl err, ev, w)"
  by (simp_all add: syncEvents_def deleteEvent_def createEvent_def updateEvent_def)

lemma syncEvents_connected_cases:
  obtains (enumeration) err where
      "snd (syncEvents (Inr True) w) = console_add (ErrorWith ''Sync process failed:'' err) (snd (next_call w))"
  | (completed) w2 where
      "syncLoop (filter (\<lambda>e. status e = PENDING \<or> status e = FAILED) (stored_events w)) (snd (next_call w)) = (Inr (), w2)"
      "snd (syncEvents (Inr True) w) = w2"
  | (aborted) err w2 where
      "syncLoop (filter (\<lambda>e. status e = PENDING \<or> status e = FAILED) (stored_events w)) (snd (next_call w)) = (Inl err, w2)"
      "snd (syncEvents (Inr True) w) = console_add (ErrorWith ''Sync process failed:'' err) w2"
proof (cases "fst (next_call w)")
  case (Some err)
  then have "snd (syncEvents (Inr True) w) = console_add (ErrorWith ''Sync process failed:'' err) (snd (next_call w))"
    by (simp add: syncEvents_def getEvents_eq)
  then show ?thesis by (rule enumeration)
next
  case None
  let ?F = "filter (\<lambda>e. status e = PENDING \<or> status e = FAILED) (stored_events w)"
  obtain r w2 where l: "syncLoop ?F (snd (next_call w)) = (r, w2)"
    by (cases "syncLoop ?F (snd (next_call w))")
  show ?thesis
  proof (cases r)
    case (Inr u)
    with l None have "snd (syncEvents (Inr True) w) = w2" by (simp add: syncEvents_def getEvents_eq)
    with l Inr show ?thesis by (intro completed) simp_all
  next
    case (Inl err)
    with l None have "snd (syncEvents (Inr True) w) = console_add (ErrorWith ''Sync process failed:'' err) w2"
      by (simp add: syncEvents_def getEvents_eq)
    with l Inl show ?thesis by (intro aborted) simp_all
  qed
qed

lemma syncEvents_disconnected: "snd (syncEvents (Inr False) w) = console_add (Log ''No network connection. Sync will retry when online.'') w"
  by (simp add: syncEvents_def)

section \<open>Pairwise different identifiers through a pass\<close>

lemma syncOne_unique:
  assumes "syncOne e w = (r, w')" and "unique_ids w"
  shows "unique_ids w'"
  using assms(1)
  by (cases rule: syncOne_cases) (use assms(2) in \<open>simp_all add: unique_ids_def distinct_upsert\<close>)

lemma syncLoop_unique:
  "syncLoop F w = (r, w') \<Longrightarrow> unique_ids w \<Longrightarrow> unique_ids w'"
proof (induction F arbitrary: w)
  case Nil then show ?case by simp
next
  case (Cons f F)
  from Cons.prems(1) show ?case
  proof (cases rule: syncLoop_Cons_cases)
    case (stop err)
    from syncOne_unique[OF stop(1) Cons.prems(2)] show ?thesis .
  next
    case (continue w1)
    from Cons.IH[OF continue(2) syncOne_unique[OF continue(1) Cons.prems(2)]] show ?thesis .
  qed
qed

lemma syncEvents_connected_unique:
  assumes "unique_ids w"
  shows "unique_ids (snd (syncEvents (Inr True) w))"
proof -
  have u1: "unique_ids (snd (next_call w))" using assms by (simp add: unique_ids_def)
  show ?thesis
  proof (cases w rule: syncEvents_connected_cases)
    case (enumeration err)
    with assms show ?thesis by (simp add: unique_ids_def)
  next
    case (completed w2)
    from syncLoop_unique[OF completed(1) u1] completed(2) show ?thesis by simp
  next
    case (aborted err w2)
    from syncLoop_unique[OF aborted(1) u1] aborted(2) show ?thesis by (simp add: unique_ids_def)
  qed
qed

lemma syncEvents_unique:
  assumes "unique_ids w"
  shows "unique_ids (snd (syncEvents net w))"
proof (cases net rule: connectivity_cases)
  case (rejected err)
  with assms show ?thesis by (simp add: rejected_connectivity)
next
  case connected
  with syncEvents_connected_unique[OF assms] show ?thesis by simp
next
  case disconnected
  with assms show ?thesis by (simp add: syncEvents_disconnected unique_ids_def)
qed

lemma stored_event_member:
  "stored_event i w = Some x \<Longrightarrow> x \<in> set (stored_events w) \<and> id_event x = i"
  by (auto simp: stored_event_eq find_Some_iff)

section \<open>createEvent, updateEvent, deleteEvent on the stored collection\<close>

lemma saveEvent_stored:
  "saveEvent ev w = (r, w') \<Longrightarrow>
   stored_events w' = (case r of Inl _ \<Rightarrow> stored_events w | Inr _ \<Rightarrow> upsert (toJSON ev) (stored_events w))"
  by (cases r) (simp_all add: saveEvent_failed_stored saveEvent_ok_stored)

lemma createEvent_stored:
  "stored_events (snd (snd (createEvent net ev w))) =
     (case fst (createEvent net ev w) of
        Inr ev' \<Rightarrow> upsert (toJSON ev') (stored_events w)
      | Inl _ \<Rightarrow> stored_events w)"
proof (cases net rule: connectivity_cases)
  case (rejected err)
  then show ?thesis by (simp add: rejected_connectivity)
next
  case disconnected
  obtain r1 w1 where s1: "saveEvent (ev\<lparr>status := PENDING, syncAttempts := 0\<rparr>) w = (r1, w1)"
    by (cases "saveEvent (ev\<lparr>status := PENDING, syncAttempts := 0\<rparr>) w")
  from saveEvent_stored[OF s1] s1 disconnected show ?thesis
    by (cases r1) (simp_all add: createEvent_def Let_def)
next
  case connected
  obtain r1 w1 where s1: "saveEvent (ev\<lparr>status := SENT, syncAttempts := 0\<rparr>) w = (r1, w1)"
    by (cases "saveEvent (ev\<lparr>status := SENT, syncAttempts := 0\<rparr>) w")
  show ?thesis
  proof (cases r1)
    case (Inr u)
    with saveEvent_stored[OF s1] s1 connected show ?thesis by (simp add: createEvent_def Let_def)
  next
    case (Inl err)
    let ?ev' = "ev\<lparr>status := FAILED, syncAttempts := 1,
                    lastSyncError := Some (message_or err ''Failed to sync'')\<rparr>"
    obtain r2 w2 where s2: "saveEvent ?ev' w1 = (r2, w2)" by (cases "saveEvent ?ev' w1")
    from saveEvent_stored[OF s1] Inl have "stored_events w1 = stored_events w" by simp
    with saveEvent_stored[OF s2] s1 s2 Inl connected show ?thesis
      by (cases r2) (simp_all add: createEvent_def Let_def)
  qed
qed

lemma createEvent_returned:
  assumes "fst (createEvent net ev w) = Inr ev'"
  shows "id_event ev' = id_event ev" and "updatedAt ev' = updatedAt ev"
    and "syncAttempts ev' \<le> 1"
    and "net = Inr False \<Longrightarrow> ev' = ev\<lparr>status := PENDING, syncAttempts := 0\<rparr>"
  using assms
  by (auto simp: createEvent_def Let_def split: if_splits prod.splits sum.splits)

lemma updateEvent_stored:
  "stored_events (snd (snd (updateEvent net ev w))) =
     (case fst (updateEvent net ev w) of
        Inr ev' \<Rightarrow> upsert (toJSON ev') (stored_events w)
      | Inl _ \<Rightarrow> stored_events w)"
proof (cases net rule: connectivity_cases)
  case (rejected err)
  then show ?thesis by (simp add: rejected_connectivity)
next
  case disconnected
  obtain r1 w1 where s1: "saveEvent (ev\<lparr>status := PENDING\<rparr>) w = (r1, w1)"
    by (cases "saveEvent (ev\<lparr>status := PENDING\<rparr>) w")
  from saveEvent_stored[OF s1] s1 disconnected show ?thesis
    by (cases r1) (simp_all add: updateEvent_def Let_def)
next
  case connected
  obtain r1 w1 where s1: "saveEvent (ev\<lparr>status := SENT, syncAttempts := 0\<rparr>) w = (r1, w1)"
    by (cases "saveEvent (ev\<lparr>status := SENT, syncAttempts := 0\<rparr>) w")
  show ?thesis
  proof (cases r1)
    case (Inr u)
    with saveEvent_stored[OF s1] s1 connected show ?thesis by (simp add: updateEvent_def Let_def)
  next
    case (Inl err)
    let ?ev' = "ev\<lparr>lastSyncError := Some '''', status := FAILED,
                    syncAttempts := min (syncAttempts ev + 1) MAX_RETRY_ATTEMPTS,
                    lastSyncError := Some (message_or err ''Failed to sync'')\<rparr>"
    let ?w1 = "console_add (ErrorWith ''Failed to update event:'' err) w1"
    obtain r2 w2 where s2: "saveEvent ?ev' ?w1 = (r2, w2)" by (cases "saveEvent ?ev' ?w1")
    from saveEvent_stored[OF s1] Inl have "stored_events ?w1 = stored_events w" by simp
    with saveEvent_stored[OF s2] s1 s2 Inl connected show ?thesis
      by (cases r2) (simp_all add: updateEvent_def Let_def)
  qed
qed

lemma updateEvent_returned:
  assumes "fst (updateEvent net ev w) = Inr ev'"
  shows "id_event ev' = id_event ev" and "updatedAt ev' = updatedAt ev"
    and "net = Inr True \<Longrightarrow> syncAttempts ev' \<le> MAX_RETRY_ATTEMPTS"
    and "net = Inr False \<Longrightarrow> syncAttempts ev' = syncAttempts ev"
  using assms
  by (auto simp: updateEvent_def Let_def split: if_splits prod.splits sum.splits)

lemma deleteEvent_stored:
  "stored_events (snd (deleteEvent net i w)) = stored_events w \<or>
   stored_events (snd (deleteEvent net i w)) = filter (\<lambda>e. id_event e \<noteq> i) (stored_events w)"
proof -
  have n: "map toJSON (filter (\<lambda>e. id_event e \<noteq> i) (stored_events w)) = filter (\<lambda>e. id_event e \<noteq> i) (stored_events w)"
    by (rule map_idI) (auto dest: stored_events_normal)
  have "stored_events (snd (deleteEvent_local i w)) = stored_events w \<or>
        stored_events (snd (deleteEvent_local i w)) = filter (\<lambda>e. id_event e \<noteq> i) (stored_events w)"
    by (simp add: deleteEvent_local_def getEvents_eq saveEvents_eq stored_events_eq[symmetric]
        split: option.splits)
       (simp add: stored_events_eq n[unfolded stored_events_eq])
  then show ?thesis
    by (cases net rule: connectivity_cases; cases "deleteEvent_local i w";
        cases "fst (deleteEvent_local i w)")
       (auto simp: deleteEvent_def)
qed

section \<open>Invariants of the stored collection\<close>

lemma synced_attempts [simp]: "syncAttempts (synced e) = 0" "updatedAt (synced e) = updatedAt e"
  by (simp_all add: synced_def)

lemma failed_attempts [simp]:
  "syncAttempts (failed err e) = syncAttempts e + 1" "updatedAt (failed err e) = updatedAt e"
  by (simp_all add: failed_def)

lemma bounded_upsert:
  "attempts_bounded w \<Longrightarrow> syncAttempts x \<le> MAX_RETRY_ATTEMPTS \<Longrightarrow>
   stored_events w' = upsert (toJSON x) (stored_events w) \<Longrightarrow> attempts_bounded w'"
  by (simp add: attempts_bounded_def list_all_upsert)

lemma bounded_same:
  "attempts_bounded w \<Longrightarrow> stored_events w' = stored_events w \<Longrightarrow> attempts_bounded w'"
  by (simp add: attempts_bounded_def)

lemma syncOne_bounded:
  assumes "syncOne e w = (r, w')" and "attempts_bounded w"
  shows "attempts_bounded w'"
  using assms(1)
proof (cases rule: syncOne_cases)
  case skip
  from bounded_same[OF assms(2) skip(3)] show ?thesis .
next
  case sent
  show ?thesis by (rule bounded_upsert[OF assms(2) _ sent(3)]) simp
next
  case (recorded err)
  show ?thesis by (rule bounded_upsert[OF assms(2) _ recorded(3)]) (use recorded(1) in simp)
next
  case (thrown err)
  from bounded_same[OF assms(2) thrown(3)] show ?thesis .
qed

lemma syncLoop_bounded:
  "syncLoop F w = (r, w') \<Longrightarrow> attempts_bounded w \<Longrightarrow> attempts_bounded w'"
proof (induction F arbitrary: w)
  case Nil then show ?case by simp
next
  case (Cons f F)
  from Cons.prems(1) show ?case
  proof (cases rule: syncLoop_Cons_cases)
    case (stop err)
    from syncOne_bounded[OF stop(1) Cons.prems(2)] show ?thesis .
  next
    case (continue w1)
    from Cons.IH[OF continue(2) syncOne_bounded[OF continue(1) Cons.prems(2)]] show ?thesis .
  qed
qed

lemma syncEvents_connected_bounded:
  assumes "attempts_bounded w"
  shows "attempts_bounded (snd (syncEvents (Inr True) w))"
proof -
  have b1: "attempts_bounded (snd (next_call w))" by (rule bounded_same[OF assms]) simp
  show ?thesis
  proof (cases w rule: syncEvents_connected_cases)
    case (enumeration err)
    show ?thesis by (rule bounded_same[OF assms]) (simp add: enumeration)
  next
    case (completed w2)
    from syncLoop_bounded[OF completed(1) b1] completed(2) show ?thesis by simp
  next
    case (aborted err w2)
    show ?thesis by (rule bounded_same[OF syncLoop_bounded[OF aborted(1) b1]]) (simp add: aborted(2))
  qed
qed

lemma syncEvents_bounded:
  assumes "attempts_bounded w"
  shows "attempts_bounded (snd (syncEvents net w))"
proof (cases net rule: connectivity_cases)
  case (rejected err)
  with assms show ?thesis by (simp add: rejected_connectivity)
next
  case connected
  with syncEvents_connected_bounded[OF assms] show ?thesis by simp
next
  case disconnected
  show ?thesis by (rule bounded_same[OF assms]) (simp add: disconnected syncEvents_disconnected)
qed

lemma createEvent_bounded:
  assumes "attempts_bounded w"
  shows "attempts_bounded (snd (snd (createEvent net ev w)))"
proof (cases "fst (createEvent net ev w)")
  case (Inl err)
  show ?thesis by (rule bounded_same[OF assms]) (simp add: createEvent_stored Inl)
next
  case (Inr ev')
  from createEvent_returned(3)[OF Inr] have "syncAttempts ev' \<le> MAX_RETRY_ATTEMPTS"
    by (simp add: MAX_RETRY_ATTEMPTS_def)
  then show ?thesis by (rule bounded_upsert[OF assms]) (simp add: createEvent_stored Inr)
qed

lemma updateEvent_bounded:
  assumes "attempts_bounded w" and "net \<noteq> Inr False \<or> syncAttempts ev \<le> MAX_RETRY_ATTEMPTS"
  shows "attempts_bounded (snd (snd (updateEvent net ev w)))"
proof (cases "fst (updateEvent net ev w)")
  case (Inl err)
  show ?thesis by (rule bounded_same[OF assms(1)]) (simp add: updateEvent_stored Inl)
next
  case (Inr ev')
  have "syncAttempts ev' \<le> MAX_RETRY_ATTEMPTS"
  proof (cases net rule: connectivity_cases)
    case (rejected err)
    with Inr show ?thesis by (simp add: rejected_connectivity)
  next
    case connected
    from updateEvent_returned(3)[OF Inr connected] show ?thesis .
  next
    case disconnected
    with updateEvent_returned(4)[OF Inr disconnected] assms(2) show ?thesis by simp
  qed
  then show ?thesis by (rule bounded_upsert[OF assms(1)]) (simp add: updateEvent_stored Inr)
qed

lemma deleteEvent_bounded:
  assumes "attempts_bounded w"
  shows "attempts_bounded (snd (deleteEvent net i w))"
  using deleteEvent_stored[of net i w] assms
  by (auto simp: attempts_bounded_def list_all_iff)

lemma stored_updatedAt_normal:
  "stored_event i w = Some x \<Longrightarrow> toJSON_time (updatedAt x) = updatedAt x"
proof -
  assume "stored_event i w = Some x"
  then have "toJSON x = x" using stored_event_member stored_events_normal by blast
  then have "updatedAt (toJSON x) = updatedAt x" by simp
  then show ?thesis by simp
qed

lemma syncOne_updatedAt:
  assumes "syncOne e w = (r, w')"
    and "map_option updatedAt (stored_event (id_event e) w) = Some (updatedAt e)"
  shows "map_option updatedAt (stored_event i w') = map_option updatedAt (stored_event i w)"
proof -
  from assms(2) obtain x where x: "stored_event (id_event e) w = Some x" "updatedAt x = updatedAt e"
    by auto
  from stored_updatedAt_normal[OF x(1)] x(2) have n: "toJSON_time (updatedAt e) = updatedAt e" by simp
  from assms(1) show ?thesis
    by (cases rule: syncOne_cases) (use x n in \<open>simp_all add: stored_event_eq find_upsert\<close>)
qed

lemma syncLoop_updatedAt:
  "syncLoop F w = (r, w') \<Longrightarrow>
   \<forall>f\<in>set F. map_option updatedAt (stored_event (id_event f) w) = Some (updatedAt f) \<Longrightarrow>
   map_option updatedAt (stored_event i w') = map_option updatedAt (stored_event i w)"
proof (induction F arbitrary: w)
  case Nil then show ?case by simp
next
  case (Cons f F)
  from Cons.prems(2) have hd: "map_option updatedAt (stored_event (id_event f) w) = Some (updatedAt f)"
    by simp
  from Cons.prems(1) show ?case
  proof (cases rule: syncLoop_Cons_cases)
    case (stop err)
    from syncOne_updatedAt[OF stop(1) hd] show ?thesis .
  next
    case (continue w1)
    have "\<forall>g\<in>set F. map_option updatedAt (stored_event (id_event g) w1) = Some (updatedAt g)"
      using Cons.prems(2) syncOne_updatedAt[OF continue(1) hd] by simp
    from Cons.IH[OF continue(2) this] syncOne_updatedAt[OF continue(1) hd] show ?thesis by simp
  qed
qed

lemma syncEvents_connected_updatedAt:
  assumes "unique_ids w"
  shows "map_option updatedAt (stored_event i (snd (syncEvents (Inr True) w))) = map_option updatedAt (stored_event i w)"
proof -
  let ?F = "filter (\<lambda>e. status e = PENDING \<or> status e = FAILED) (stored_events w)"
  have inv: "\<forall>f\<in>set ?F. map_option updatedAt (stored_event (id_event f) (snd (next_call w))) = Some (updatedAt f)"
    using assms by (simp add: stored_event_eq unique_ids_def find_distinct_ids)
  have s0: "stored_event i (snd (next_call w)) = stored_event i w" by (simp add: stored_event_eq)
  show ?thesis
  proof (cases w rule: syncEvents_connected_cases)
    case (enumeration err)
    then show ?thesis by (simp add: stored_event_eq)
  next
    case (completed w2)
    from syncLoop_updatedAt[OF completed(1) inv] s0 completed(2) show ?thesis by simp
  next
    case (aborted err w2)
    from syncLoop_updatedAt[OF aborted(1) inv, of i] s0 aborted(2) show ?thesis
      by (simp add: stored_event_eq)
  qed
qed

section \<open>Pairwise different identifiers are an invariant\<close>

text \<open>
  The empty store has pairwise different identifiers, and every operation of the
  repository keeps them so: \<^verbatim>\<open>saveEvent\<close> replaces the first event of an id it finds.
\<close>

lemma unique_ids_kept:
  assumes "unique_ids w"
  shows "unique_ids (snd (snd (createEvent net ev w)))"
    and "unique_ids (snd (snd (updateEvent net ev w)))"
    and "unique_ids (snd (deleteEvent net i w))"
    and "unique_ids (snd (syncEvents net w))"
proof -
  show "unique_ids (snd (snd (createEvent net ev w)))"
    using assms
    by (cases "fst (createEvent net ev w)")
       (simp_all add: unique_ids_def createEvent_stored distinct_upsert)
  show "unique_ids (snd (snd (updateEvent net ev w)))"
    using assms
    by (cases "fst (updateEvent net ev w)")
       (simp_all add: unique_ids_def updateEvent_stored distinct_upsert)
  show "unique_ids (snd (deleteEvent net i w))"
    using assms deleteEvent_stored[of net i w]
    by (auto simp: unique_ids_def distinct_map_filter)
  show "unique_ids (snd (syncEvents net w))"
    by (rule syncEvents_unique[OF assms])
qed

lemma unique_ids_empty: "unique_ids \<lparr>store = Map.empty, rejections = rs, console = cs\<rparr>"
  by (simp add: unique_ids_def stored_events_eq)

section \<open>The next calls to the store complete\<close>

lemma completes_Suc:
  "completes (Suc n) w \<Longrightarrow> fst (next_call w) = None \<and> completes n (snd (next_call w))"
  by (cases "rejections w") (simp_all add: completes_def next_call_def)

lemma completes_0 [simp]: "completes 0 w"
  by (simp add: completes_def)

lemma store_update_rejections [simp]:
  "completes n (w\<lparr>store := s\<rparr>) = completes n w"
  by (simp add: completes_def)

lemma saveEvents_completes:
  assumes "completes (Suc n) w"
  shows "fst (saveEvents es w) = Inr ()"
    and "stored_events (snd (saveEvents es w)) = map toJSON es"
    and "completes n (snd (saveEvents es w))"
  using completes_Suc[OF assms]
  by (simp_all add: saveEvents_eq stored_events_eq)

lemma getEvents_completes:
  assumes "completes (Suc n) w"
  shows "fst (getEvents w) = Inr (stored_events w)"
    and "stored_events (snd (getEvents w)) = stored_events w"
    and "completes n (snd (getEvents w))"
  using completes_Suc[OF assms]
  by (simp_all add: getEvents_eq)

lemma saveEvent_completes:
  assumes "completes (Suc (Suc n)) w"
  shows "fst (saveEvent ev w) = Inr ()"
    and "stored_events (snd (saveEvent ev w)) = upsert (toJSON ev) (stored_events w)"
    and "completes n (snd (saveEvent ev w))"
proof -
  note g = getEvents_completes[OF assms]
  obtain w1 where w1: "getEvents w = (Inr (stored_events w), w1)"
    using g(1) by (cases "getEvents w") simp
  with g(3) have c1: "completes (Suc n) w1" by simp
  note s = saveEvents_completes[OF c1, of "upsert ev (stored_events w)"]
  have eq: "saveEvent ev w = saveEvents (upsert ev (stored_events w)) w1"
    by (simp add: saveEvent_eq w1)
  show "fst (saveEvent ev w) = Inr ()" by (simp add: eq s(1))
  show "stored_events (snd (saveEvent ev w)) = upsert (toJSON ev) (stored_events w)"
    by (simp add: eq s(2) upsert_map_toJSON stored_events_normal_map)
  show "completes n (snd (saveEvent ev w))" by (simp add: eq s(3))
qed



section \<open>C1: a reconciliation attempt that succeeds\<close>

text \<open>
  C1 at a concrete state. The stored event is FAILED with one attempt and carries the
  error of that attempt, as the \<^verbatim>\<open>catch\<close> branch of \<^verbatim>\<open>createEvent\<close> leaves it. A
  reconciliation pass run while connected, with every call to the store completing,
  synchronises it: the console reports the success and the event is stored with status
  SENT and no attempts, but its \<open>lastSyncError\<close> is still \<^verbatim>\<open>Sync failed\<close>, where C1 has it
  cleared. \<^verbatim>\<open>updateEvent\<close> run while connected on the same event assigns the empty string
  to \<open>lastSyncError\<close> of the caller's object, after the copy that is saved was taken: the
  caller's object ends with the empty string, the event returned and the event stored
  keep \<^verbatim>\<open>Sync failed\<close>.
\<close>

theorem syncEvents_success_keeps_lastSyncError:
  "stored_event ''e1'' failed_once_world =
     Some (sample ''e1'' FAILED 1 (Some ''Sync failed'') (IsoString 0)) \<and>
   syncEvents (Inr True) failed_once_world =
     (Inr (), \<lparr>store = [EVENTS_KEY \<mapsto> Stringified [sample ''e1'' SENT 0 (Some ''Sync failed'') (IsoString 0)]],
               rejections = [], console = [Log ''Event e1 synced successfully'']\<rparr>) \<and>
   stored_event ''e1'' (snd (syncEvents (Inr True) failed_once_world)) =
     Some (sample ''e1'' SENT 0 (Some ''Sync failed'') (IsoString 0)) \<and>
   updateEvent (Inr True) failed_once failed_once_world =
     (Inr (sample ''e1'' SENT 0 (Some ''Sync failed'') (IsoString 0)),
      sample ''e1'' FAILED 1 (Some []) (IsoString 0),
      \<lparr>store = [EVENTS_KEY \<mapsto> Stringified [sample ''e1'' SENT 0 (Some ''Sync failed'') (IsoString 0)]],
       rejections = [], console = []\<rparr>) \<and>
   stored_event ''e1'' (snd (snd (updateEvent (Inr True) failed_once failed_once_world))) =
     Some (sample ''e1'' SENT 0 (Some ''Sync failed'') (IsoString 0))"
  by (simp add: run_defs)

section \<open>C2: a reconciliation attempt that fails\<close>


section \<open>C3, C9: operations run while disconnected\<close>

text \<open>
  C3. Run while the connectivity oracle reports disconnected, \<^verbatim>\<open>syncEvents\<close> completes
  without an error and writes nothing: the key-value store, and so every field of every
  stored event, is what it was, and no call to the store was made.
\<close>

theorem syncEvents_disconnected_noop:
  "fst (syncEvents (Inr False) w) = Inr () \<and>
   store (snd (syncEvents (Inr False) w)) = store w \<and>
   rejections (snd (syncEvents (Inr False) w)) = rejections w \<and>
   stored_events (snd (syncEvents (Inr False) w)) = stored_events w \<and>
   stored_event i (snd (syncEvents (Inr False) w)) = stored_event i w"
  by (simp add: syncEvents_def console_add_def stored_events_eq stored_event_eq)

text \<open>
  C9. Run while the connectivity oracle reports disconnected, \<^verbatim>\<open>deleteEvent\<close> returns
  normally and leaves the whole state as it was: nothing is removed, nothing is logged.
\<close>

theorem deleteEvent_disconnected_noop:
  "deleteEvent (Inr False) i w = (Inr (), w)"
  by (simp add: deleteEvent_def)

section \<open>C4: creating an event while disconnected\<close>

text \<open>
  C4, as amended. When the next three calls to the key-value store complete (the read and the write
  of \<^verbatim>\<open>saveEvent\<close>, then the read of \<^verbatim>\<open>getEventById\<close>), \<^verbatim>\<open>createEvent\<close> run while
  disconnected returns the event with status PENDING and \<open>syncAttempts = 0\<close>, and
  \<^verbatim>\<open>getEventById\<close> with its id then returns the stored event: the returned one in its
  JSON form.
\<close>

theorem createEvent_disconnected_pending:
  assumes "completes 3 w"
  shows "fst (createEvent (Inr False) ev w) = Inr (ev\<lparr>status := PENDING, syncAttempts := 0\<rparr>) \<and>
         fst (getEventById (id_event ev) (snd (snd (createEvent (Inr False) ev w)))) =
           Inr (Some (ev\<lparr>status := PENDING, syncAttempts := 0,
                           occurredAt := toJSON_time (occurredAt ev),
                           createdAt := toJSON_time (createdAt ev),
                           updatedAt := toJSON_time (updatedAt ev)\<rparr>))"
proof -
  let ?ev' = "ev\<lparr>status := PENDING, syncAttempts := 0\<rparr>"
  from assms have c: "completes (Suc (Suc (Suc 0))) w" by (simp add: numeral_3_eq_3)
  note s = saveEvent_completes[OF c, of ?ev']
  obtain w1 where w1: "saveEvent ?ev' w = (Inr (), w1)" using s(1) by (cases "saveEvent ?ev' w") simp
  then have cr: "createEvent (Inr False) ev w = (Inr ?ev', ?ev', w1)" by (simp add: createEvent_def Let_def)
  from s(2,3) w1 have st: "stored_events w1 = upsert (toJSON ?ev') (stored_events w)"
    and c1: "completes (Suc 0) w1" by simp_all
  from getEvents_completes(1)[OF c1] st
  have "fst (getEventById (id_event ev) w1) = Inr (Some (toJSON ?ev'))"
    by (cases "getEvents w1") (simp add: getEventById_def getEventById_local_def find_upsert)
  with cr show ?thesis by (simp add: toJSON_def)
qed

text \<open>The theorem at an empty store and an event that came in as SENT with seven attempts.\<close>

theorem createEvent_disconnected_pending_witness:
  "completes 3 (world_of [] []) \<and>
   fst (createEvent (Inr False) incoming_event (world_of [] [])) =
     Inr (sample ''e1'' PENDING 0 None (DateObj 5)) \<and>
   fst (getEventById ''e1'' (snd (snd (createEvent (Inr False) incoming_event (world_of [] []))))) =
     Inr (Some (sample ''e1'' PENDING 0 None (IsoString 5)))"
  using createEvent_disconnected_pending[of "world_of [] []" incoming_event]
  by (simp add: run_defs)

text \<open>
  C4 as stated fails: the store rejects the first call of \<^verbatim>\<open>saveEvent\<close>, the disconnected
  branch has no handler, and \<^verbatim>\<open>createEvent\<close> throws the rejection instead of returning an
  event; nothing was stored, and \<^verbatim>\<open>getEventById\<close> finds no event of that id.
\<close>

theorem createEvent_disconnected_throws:
  "createEvent (Inr False) incoming_event (world_of [] [Some (Error (Some ''disk full''))]) =
     (Inl (Error (Some ''disk full'')), sample ''e1'' PENDING 0 None (DateObj 5), world_of [] []) \<and>
   fst (getEventById ''e1''
     (snd (snd (createEvent (Inr False) incoming_event (world_of [] [Some (Error (Some ''disk full''))]))))) =
     Inr None"
  by (simp add: run_defs)

section \<open>C5: the bound on the attempt counter\<close>

text \<open>
  C5, as amended. If no stored event has more than \<open>MAX_RETRY_ATTEMPTS\<close> attempts, that
  is still so after \<^verbatim>\<open>createEvent\<close>, \<^verbatim>\<open>deleteEvent\<close> and \<^verbatim>\<open>syncEvents\<close> (connected or
  not, or with the connectivity check rejecting) and after \<^verbatim>\<open>updateEvent\<close> run while
  connected or with the check rejecting. Run while disconnected,
  \<^verbatim>\<open>updateEvent\<close> stores the event with the attempt count it was given, so it keeps the
  bound when that count is at most \<open>MAX_RETRY_ATTEMPTS\<close>.
\<close>

theorem attempts_bounded_preserved:
  assumes "attempts_bounded w"
  shows "attempts_bounded (snd (snd (createEvent net ev w))) \<and>
         attempts_bounded (snd (deleteEvent net i w)) \<and>
         attempts_bounded (snd (syncEvents net w)) \<and>
         attempts_bounded (snd (snd (updateEvent (Inr True) ev w))) \<and>
         (syncAttempts ev \<le> MAX_RETRY_ATTEMPTS \<longrightarrow> attempts_bounded (snd (snd (updateEvent (Inr False) ev w)))) \<and>
         attempts_bounded (snd (snd (updateEvent (Inl err) ev w)))"
  using createEvent_bounded[OF assms, of net ev] deleteEvent_bounded[OF assms, of net i]
    syncEvents_bounded[OF assms, of net] updateEvent_bounded[OF assms, of "Inr True" ev]
    updateEvent_bounded[OF assms, of "Inr False" ev] updateEvent_bounded[OF assms, of "Inl err" ev]
  by simp

text \<open>
  The theorem at a store whose event has two attempts: a pass whose attempt fails brings
  it to three, and an update while disconnected with an event of three attempts keeps the
  bound.
\<close>

theorem attempts_bounded_preserved_witness:
  "attempts_bounded disk_full_world \<and>
   stored_event ''e1'' (snd (syncEvents (Inr True) disk_full_world)) =
     Some (sample ''e1'' FAILED 3 (Some ''disk full'') (IsoString 0)) \<and>
   attempts_bounded (snd (syncEvents (Inr True) disk_full_world)) \<and>
   syncAttempts (sample ''e1'' FAILED 3 None (IsoString 0)) \<le> MAX_RETRY_ATTEMPTS \<and>
   attempts_bounded (snd (snd (updateEvent (Inr False) (sample ''e1'' FAILED 3 None (IsoString 0))
      disk_full_world)))"
  using attempts_bounded_preserved[of disk_full_world "Inr True"
      "sample ''e1'' FAILED 3 None (IsoString 0)" "''e1''"]
  by (simp add: run_defs)

text \<open>
  C5 as stated fails: the empty collection satisfies the bound, and \<^verbatim>\<open>updateEvent\<close> run
  while disconnected with an event of four attempts stores it with four attempts.
\<close>

theorem updateEvent_disconnected_breaks_bound:
  "attempts_bounded (world_of [] []) \<and>
   \<not> attempts_bounded (snd (snd (updateEvent (Inr False) (sample ''e1'' FAILED 4 None (IsoString 0)) (world_of [] []))))"
  by (simp add: run_defs)

section \<open>C6: the updatedAt timestamp\<close>

text \<open>
  C6, as amended. No operation of the repository assigns \<open>updatedAt\<close>. When
  \<^verbatim>\<open>createEvent\<close> or \<^verbatim>\<open>updateEvent\<close> returns an event, the event stored under its id has
  the \<open>updatedAt\<close> the caller passed in, in its JSON form; and when the identifiers of
  the stored events are pairwise different, \<^verbatim>\<open>syncEvents\<close> leaves the \<open>updatedAt\<close> of the
  event stored under any id as it was.
\<close>

theorem updatedAt_never_refreshed:
  "(fst (createEvent net ev w) = Inr ev' \<longrightarrow>
      map_option updatedAt (stored_event (id_event ev) (snd (snd (createEvent net ev w)))) =
        Some (toJSON_time (updatedAt ev))) \<and>
   (fst (updateEvent net ev w) = Inr ev' \<longrightarrow>
      map_option updatedAt (stored_event (id_event ev) (snd (snd (updateEvent net ev w)))) =
        Some (toJSON_time (updatedAt ev))) \<and>
   (unique_ids w \<longrightarrow>
      map_option updatedAt (stored_event i (snd (syncEvents net w))) =
        map_option updatedAt (stored_event i w))"
proof (intro conjI impI)
  assume r: "fst (createEvent net ev w) = Inr ev'"
  from createEvent_returned(1,2)[OF r] r
  show "map_option updatedAt (stored_event (id_event ev) (snd (snd (createEvent net ev w)))) =
        Some (toJSON_time (updatedAt ev))"
    by (simp add: stored_event_eq createEvent_stored find_upsert)
next
  assume r: "fst (updateEvent net ev w) = Inr ev'"
  from updateEvent_returned(1,2)[OF r] r
  show "map_option updatedAt (stored_event (id_event ev) (snd (snd (updateEvent net ev w)))) =
        Some (toJSON_time (updatedAt ev))"
    by (simp add: stored_event_eq updateEvent_stored find_upsert)
next
  assume u: "unique_ids w"
  show "map_option updatedAt (stored_event i (snd (syncEvents net w))) =
        map_option updatedAt (stored_event i w)"
  proof (cases net rule: connectivity_cases)
    case (rejected err)
    then show ?thesis by (simp add: rejected_connectivity)
  next
    case connected
    with syncEvents_connected_updatedAt[OF u] show ?thesis by simp
  next
    case disconnected
    then show ?thesis by (simp add: syncEvents_disconnected stored_event_eq)
  qed
qed

text \<open>
  The theorem at an update while connected and a creation while disconnected of an event
  whose \<open>updatedAt\<close> is a Date object, and at a pass over a stored event.
\<close>

theorem updatedAt_never_refreshed_witness:
  "fst (updateEvent (Inr True) dated_event (world_of [] [])) = Inr (sample ''e1'' SENT 0 None (DateObj 5)) \<and>
   map_option updatedAt (stored_event ''e1'' (snd (snd (updateEvent (Inr True) dated_event (world_of [] []))))) =
     Some (IsoString 5) \<and>
   fst (createEvent (Inr False) dated_event (world_of [] [])) = Inr dated_event \<and>
   map_option updatedAt (stored_event ''e1'' (snd (snd (createEvent (Inr False) dated_event (world_of [] []))))) =
     Some (IsoString 5) \<and>
   unique_ids pending_world \<and>
   map_option updatedAt (stored_event ''e1'' pending_world) = Some (IsoString 7) \<and>
   map_option updatedAt (stored_event ''e1'' (snd (syncEvents (Inr True) pending_world))) = Some (IsoString 7)"
  using updatedAt_never_refreshed[of "Inr True" dated_event "world_of [] []"
      "sample ''e1'' SENT 0 None (DateObj 5)" "''e1''"]
    updatedAt_never_refreshed[of "Inr False" dated_event "world_of [] []" dated_event "''e1''"]
    updatedAt_never_refreshed[of "Inr True" dated_event pending_world dated_event "''e1''"]
  by (simp add: run_defs)

text \<open>
  C6 as stated fails: the stored event has \<open>updatedAt = IsoString 7\<close>; a pass run while
  connected persists it as SENT, and an update run while disconnected persists a new
  comment, and after either mutation the stored \<open>updatedAt\<close> is the same \<open>IsoString 7\<close>
  as before.
\<close>

theorem updatedAt_unchanged_after_mutation:
  "stored_event ''e1'' pending_world = Some (sample ''e1'' PENDING 0 None (IsoString 7)) \<and>
   stored_event ''e1'' (snd (syncEvents (Inr True) pending_world)) =
     Some (sample ''e1'' SENT 0 None (IsoString 7)) \<and>
   stored_event ''e1'' (snd (snd (updateEvent (Inr False) (pending_event\<lparr>comment := ''scratch''\<rparr>) pending_world))) =
     Some ((sample ''e1'' PENDING 0 None (IsoString 7))\<lparr>comment := ''scratch''\<rparr>) \<and>
   updatedAt (sample ''e1'' SENT 0 None (IsoString 7)) = updatedAt (sample ''e1'' PENDING 0 None (IsoString 7)) \<and>
   updatedAt ((sample ''e1'' PENDING 0 None (IsoString 7))\<lparr>comment := ''scratch''\<rparr>) =
     updatedAt (sample ''e1'' PENDING 0 None (IsoString 7))"
  by (simp add: run_defs)

section \<open>C7: saving and reloading the collection\<close>

text \<open>
  C7, as amended. When the next two calls to the key-value store complete, \<^verbatim>\<open>saveEvents\<close>
  followed by \<^verbatim>\<open>getEvents\<close> yields as many events as were saved, in the same order, each
  equal to the original in every field but the three timestamps, which come back in their
  JSON form: the ISO text of a Date object (null for an invalid date), and unchanged when
  they were such a text already.
\<close>

theorem saveEvents_getEvents_roundtrip:
  assumes "completes 2 w"
  shows "\<exists>evs. fst (getEvents (snd (saveEvents es w))) = Inr evs \<and> length evs = length es \<and>
           (\<forall>k<length es. evs ! k = (es ! k)\<lparr>occurredAt := toJSON_time (occurredAt (es ! k)),
                                             createdAt := toJSON_time (createdAt (es ! k)),
                                             updatedAt := toJSON_time (updatedAt (es ! k))\<rparr>)"
proof -
  from assms have c: "completes (Suc (Suc 0)) w" by (simp add: numeral_2_eq_2)
  note s = saveEvents_completes[OF c, of es]
  from getEvents_completes(1)[OF s(3)] s(2)
  have "fst (getEvents (snd (saveEvents es w))) = Inr (map toJSON es)" by simp
  then show ?thesis by (simp add: toJSON_def)
qed

text \<open>The theorem at one event whose timestamps are Date objects.\<close>

theorem saveEvents_getEvents_roundtrip_witness:
  "completes 2 (world_of [] []) \<and>
   fst (getEvents (snd (saveEvents [dated_event] (world_of [] [])))) =
     Inr [sample ''e1'' PENDING 0 None (IsoString 5)]"
  using saveEvents_getEvents_roundtrip[of "world_of [] []" "[dated_event]"]
  by (simp add: run_defs)

text \<open>
  C7 as stated fails: the event saved has the Date object \<open>DateObj 5\<close> in \<open>occurredAt\<close>,
  the event reloaded has the string \<open>IsoString 5\<close> there.
\<close>

theorem roundtrip_changes_timestamps:
  "fst (getEvents (snd (saveEvents [dated_event] (world_of [] [])))) =
     Inr [sample ''e1'' PENDING 0 None (IsoString 5)] \<and>
   occurredAt dated_event = DateObj 5 \<and>
   occurredAt (sample ''e1'' PENDING 0 None (IsoString 5)) = IsoString 5 \<and>
   sample ''e1'' PENDING 0 None (IsoString 5) \<noteq> dated_event"
  by (simp add: run_defs)

section \<open>C8: a failure while the failure of an attempt is saved\<close>

text \<open>
  C8 at a concrete state. Two pending events are stored, and of the calls to the
  key-value store the second and the third are rejected: the attempt of the first event
  fails, and so does the save of its failure record in the \<^verbatim>\<open>catch\<close> block. That second
  exception leaves the loop: the pass ends in the outer handler, the second event is
  never attempted and stays PENDING, although the store would have accepted its save
  (the script of rejections is used up). When only the attempt of the first event is
  rejected, its failure is recorded and the second event is synchronised.
\<close>

theorem syncEvents_aborts_batch:
  "stored_events (world_of two_pending [None, Some (Error (Some ''busy'')), Some (Error (Some ''busy again''))]) =
     [sample ''e1'' PENDING 0 None (IsoString 0), sample ''e2'' PENDING 0 None (IsoString 0)] \<and>
   syncEvents (Inr True) (world_of two_pending [None, Some (Error (Some ''busy'')), Some (Error (Some ''busy again''))]) =
     (Inr (), \<lparr>store = [EVENTS_KEY \<mapsto> Stringified two_pending], rejections = [],
               console = [ErrorWith ''Sync process failed:'' (Error (Some ''busy again''))]\<rparr>) \<and>
   stored_events (snd (syncEvents (Inr True)
       (world_of two_pending [None, Some (Error (Some ''busy'')), Some (Error (Some ''busy again''))]))) =
     [sample ''e1'' PENDING 0 None (IsoString 0), sample ''e2'' PENDING 0 None (IsoString 0)] \<and>
   stored_events (snd (syncEvents (Inr True) (world_of two_pending [None, Some (Error (Some ''busy''))]))) =
     [sample ''e1'' PENDING 1 (Some ''busy'') (IsoString 0), sample ''e2'' SENT 0 None (IsoString 0)]"
  by (simp add: run_defs)

section \<open>C10: what syncEvents throws\<close>

text \<open>
  C10, as amended. Whenever the connectivity check gives its boolean, \<^verbatim>\<open>syncEvents\<close>
  returns normally, whatever that boolean, the stored text and the rejections of the
  key-value store: every exception of the local data source is caught and at most
  logged. A rejection of the connectivity check itself, which is awaited before the
  \<^verbatim>\<open>try\<close>, is thrown on to the caller, with nothing read, written or logged.
\<close>

theorem syncEvents_throws_only_connectivity:
  "fst (syncEvents (Inr isConnected) w) = Inr () \<and>
   syncEvents (Inl err) w = (Inl err, w)"
  by (simp add: syncEvents_def Let_def split: prod.splits sum.splits)

text \<open>
  C10 as stated fails: with a connectivity check that rejects, \<^verbatim>\<open>syncEvents\<close> does not
  return normally but throws the rejection.
\<close>

theorem syncEvents_propagates_connectivity_rejection:
  "fst (syncEvents (Inl (Error (Some ''NetInfo unavailable''))) pending_world) =
     Inl (Error (Some ''NetInfo unavailable'')) \<and>
   fst (syncEvents (Inl (Error (Some ''NetInfo unavailable''))) pending_world) \<noteq> Inr ()"
  by (simp add: run_defs)

end
